theory Spec2Isabelle
  imports Complex_Main "HOL-Library.Word"
begin

unbundle bit_operations_syntax

section \<open>louis: braille graphics on a terminal\<close>

text \<open>
  A shallow embedding of \<^verbatim>\<open>louis.h\<close>. The conventions of the embedding:

  \<^item> \<^verbatim>\<open>unsigned char\<close> is \<open>8 word\<close>; the \<^verbatim>\<open>int\<close> and \<^verbatim>\<open>unsigned int\<close>
    values that are built bitwise (\<^verbatim>\<open>utf8Encode\<close>, \<^verbatim>\<open>littleToBigEndian\<close>, the
    \<^verbatim>\<open>pixel\<close> of \<^verbatim>\<open>loadBitmap\<close>) are \<open>32 word\<close>.
  \<^item> Pixel coordinates, widths, heights and loop counters are \<open>int\<close>. Their products are
    not wrapped: a surface made by \<^verbatim>\<open>initSurface\<close> has a width and a height below
    \<open>2^16\<close>, so no product of the code leaves the range of a 32-bit \<^verbatim>\<open>int\<close>.
  \<^item> \<^verbatim>\<open>float\<close> and \<^verbatim>\<open>double\<close> values are real numbers and their arithmetic is exact:
    the rounding error of a floating-point operation is not modelled. The concrete
    inputs at which a claim is shown to fail are numbers on which the C program, in
    floating point, plots the same pixels as the model.
  \<^item> The buffer behind \<^verbatim>\<open>unsigned char *data\<close> is a list of bytes. A read or write
    outside the buffer is undefined in C; the functions that read a file or a bitmap
    return \<open>None\<close> there, and \<open>drawPoint\<close> leaves the list as it is.
  \<^item> A \<^verbatim>\<open>while\<close> loop whose exit is not a counter takes a number of iterations it may
    use at most (fuel); \<open>None\<close> says that the loop was still running when the fuel
    ran out.
\<close>

type_synonym byte = "8 word"
type_synonym uint32 = "32 word"

subsection \<open>C arithmetic\<close>

text \<open>The conversion \<^verbatim>\<open>(int)r\<close> of a floating-point value truncates toward zero.\<close>

definition toInt :: "real \<Rightarrow> int" where
  "toInt r = (if 0 \<le> r then \<lfloor>r\<rfloor> else - \<lfloor>- r\<rfloor>)"

text \<open>Integer division and remainder of C truncate toward zero.\<close>

definition cDiv :: "int \<Rightarrow> int \<Rightarrow> int" where
  "cDiv a b = sgn a * sgn b * (\<bar>a\<bar> div \<bar>b\<bar>)"

definition cMod :: "int \<Rightarrow> int \<Rightarrow> int" where
  "cMod a b = a - b * cDiv a b"

subsection \<open>Surface and tables\<close>

record Surface =
  data :: "byte list"
  width :: int
  height :: int

text \<open>\<^verbatim>\<open>static int braillePositionVals[8] = {64, 128, 4, 32, 2, 16, 1, 8};\<close>\<close>

definition braillePositionVals :: "int list" where
  "braillePositionVals = [64, 128, 4, 32, 2, 16, 1, 8]"

subsection \<open>Utility functions\<close>

definition fAbs :: "real \<Rightarrow> real \<Rightarrow> real" where
  "fAbs a b = (if a > b then a - b else b - a)"

definition fRound :: "real \<Rightarrow> int" where
  "fRound n = toInt (n + 1 / 2)"

text \<open>
  \<^verbatim>\<open>littleToBigEndian(buf + i)\<close>: the four bytes at offset \<open>i\<close>, the first one lowest.
  \<open>None\<close> when one of them lies outside the buffer.
\<close>

definition littleToBigEndian :: "byte list \<Rightarrow> nat \<Rightarrow> uint32 option" where
  "littleToBigEndian buf i =
     (if i + 3 < length buf
      then Some (ucast (buf ! i) OR push_bit 8 (ucast (buf ! (i + 1)))
                 OR push_bit 16 (ucast (buf ! (i + 2))) OR push_bit 24 (ucast (buf ! (i + 3))))
      else None)"

subsection \<open>The table of glyphs\<close>

definition utf8Encode :: "uint32 \<Rightarrow> uint32" where
  "utf8Encode utf8 =
     (let enc1 = (ucast (0xE0 OR drop_bit 12 (utf8 AND 0xF000)) :: byte);
          enc2 = (ucast (0x80 OR drop_bit 6 (utf8 AND 0x0FC0)) :: byte);
          enc3 = (ucast (0x80 OR (utf8 AND 0x003F)) :: byte)
      in push_bit 16 (ucast enc3) OR push_bit 8 (ucast enc2) OR ucast enc1)"

text \<open>\<^verbatim>\<open>genBrailleTab\<close> fills \<^verbatim>\<open>brailleTab[0..255]\<close>; the table is the list of its entries.\<close>

definition genBrailleTab :: "uint32 list" where
  "genBrailleTab = map (\<lambda>i. utf8Encode (0x2800 + of_nat i)) [0 ..< 256]"

subsection \<open>drawPoint\<close>

text \<open>
  The result is the returned status and the surface after the call. Past the bounds
  check \<open>x\<close> and \<open>y\<close> are not negative, where C's \<^verbatim>\<open>/\<close> and \<^verbatim>\<open>%\<close> are \<open>cDiv\<close> and
  \<open>cMod\<close>. The last parameter is the \<^verbatim>\<open>int value\<close> of the source.
\<close>

definition drawPoint :: "Surface \<Rightarrow> real \<Rightarrow> real \<Rightarrow> int \<Rightarrow> int \<times> Surface" where
  "drawPoint s fx fy v =
     (let x = fRound fx; y = fRound fy in
      if x < 0 \<or> y < 0 \<or> x \<ge> width s * 2 \<or> y \<ge> height s * 4 then (- 1, s)
      else
        let p = nat ((width s * height s) - width s - (cDiv y 4 * width s) + cDiv x 2);
            positionVal = (word_of_int (braillePositionVals ! nat ((cMod y 4 * 2) + cMod x 2)) :: byte)
        in if v = 0
           then (0, s\<lparr>data := (data s)[p := (data s ! p) AND NOT positionVal]\<rparr>)
           else (0, s\<lparr>data := (data s)[p := (data s ! p) OR positionVal]\<rparr>))"

subsection \<open>drawLine\<close>

text \<open>
  One pass through the body of the \<^verbatim>\<open>while\<close> loop, before its \<^verbatim>\<open>drawPoint\<close>: the new
  \<open>(x1, y1)\<close>. \<open>infin\<close> is the flag \<^verbatim>\<open>inf\<close> of the source; \<open>slope\<close> and \<open>yint\<close> are
  not initialised when it is set, and not read.
\<close>

definition lineStep :: "bool \<Rightarrow> real \<Rightarrow> real \<Rightarrow> real \<Rightarrow> real \<Rightarrow> real \<Rightarrow> real \<Rightarrow> real \<times> real" where
  "lineStep infin slope yint x1 y1 x2 y2 =
     (if infin then (x1, y1 + (if y1 < y2 then 1 else - 1))
      else if slope < 1 then
        (let x1' = x1 + (if x1 < x2 then 1 else - 1) in (x1', x1' * slope + yint))
      else
        (let y1' = y1 + (if y1 < y2 then 1 else - 1) in ((y1' - yint) / slope, y1')))"

fun drawLine_loop ::
  "nat \<Rightarrow> Surface \<Rightarrow> bool \<Rightarrow> real \<Rightarrow> real \<Rightarrow> real \<Rightarrow> real \<Rightarrow> real \<Rightarrow> real \<Rightarrow> Surface option" where
  "drawLine_loop 0 s infin slope yint x1 y1 x2 y2 =
     (if fAbs x1 x2 > 1 \<or> fAbs y1 y2 > 1 then None else Some s)"
| "drawLine_loop (Suc fuel) s infin slope yint x1 y1 x2 y2 =
     (if fAbs x1 x2 > 1 \<or> fAbs y1 y2 > 1 then
        (case lineStep infin slope yint x1 y1 x2 y2 of
           (x1', y1') \<Rightarrow>
             drawLine_loop fuel (snd (drawPoint s x1' y1' 1)) infin slope yint x1' y1' x2 y2)
      else Some s)"

definition drawLine :: "nat \<Rightarrow> Surface \<Rightarrow> real \<Rightarrow> real \<Rightarrow> real \<Rightarrow> real \<Rightarrow> Surface option" where
  "drawLine fuel s x1 y1 x2 y2 =
     (let infin = (x1 = x2);
          slope = (if infin then 0 else (y2 - y1) / (x2 - x1));
          yint = (if infin then 0 else y1 - (slope * x1))
      in drawLine_loop fuel (snd (drawPoint s x1 y1 1)) infin slope yint x1 y1 x2 y2)"

subsection \<open>drawCurve\<close>


subsection \<open>render\<close>

text \<open>
  \<^verbatim>\<open>memcpy(p, brailleTab + k, 3)\<close> copies the first three bytes of an \<^verbatim>\<open>int\<close> as they lie
  in memory. \<^verbatim>\<open>utf8Encode\<close> packs for a little-endian machine (its comment says so),
  where these are the three low bytes, lowest first.
\<close>

definition glyphBytes :: "uint32 \<Rightarrow> byte list" where
  "glyphBytes w = [ucast w, ucast (drop_bit 8 w), ucast (drop_bit 16 w)]"

text \<open>\<^verbatim>\<open>"\x1b[?25l"\<close> and \<^verbatim>\<open>"\x1b[H"\<close>.\<close>

definition hideCursor :: "byte list" where
  "hideCursor = [0x1b, 0x5b, 0x3f, 0x32, 0x35, 0x6c]"

definition cursorHome :: "byte list" where
  "cursorHome = [0x1b, 0x5b, 0x48]"

text \<open>
  \<open>render\<close> takes the table \<^verbatim>\<open>brailleTab\<close> and the global \<^verbatim>\<open>screenBuffer\<close>, which is
  \<open>None\<close> before the first call and the number of bytes allocated afterwards: the
  buffer is allocated once, for the surface of the first call, and never again.
  The result is the buffer after the call and the bytes given to \<^verbatim>\<open>write\<close>, or
  \<open>None\<close> when the bytes do not fit the buffer (the C code writes past its end).
\<close>

definition render :: "uint32 list \<Rightarrow> nat option \<Rightarrow> Surface \<Rightarrow> (nat option \<times> byte list) option" where
  "render brailleTab screenBuffer s =
     (let len = width s * height s;
          cap = (case screenBuffer of None \<Rightarrow> nat ((width s * height s * 3) + 12) | Some n \<Rightarrow> n);
          out = hideCursor @ cursorHome
                @ concat (map (\<lambda>i. glyphBytes (brailleTab ! unat (data s ! i))) [0 ..< nat len])
                @ cursorHome
      in if length out \<le> cap \<and> nat len \<le> length (data s) then Some (Some cap, out) else None)"

subsection \<open>loadBitmap\<close>

text \<open>
  The byte written for one pixel: \<^verbatim>\<open>pixel = (r << 24) | (g << 16) | (b << 8);\<close>
  \<^verbatim>\<open>*bp++ = pixel ? 0 : 1;\<close>
\<close>

definition pixelByte :: "byte \<Rightarrow> byte \<Rightarrow> byte \<Rightarrow> byte" where
  "pixelByte r g b =
     (let pixel = (push_bit 24 (ucast r) OR push_bit 16 (ucast g) OR push_bit 8 (ucast b) :: uint32)
      in if pixel \<noteq> 0 then 0 else 1)"

text \<open>The three reads of the loop body at \<^verbatim>\<open>bufOffset\<close>: blue, green, red.\<close>

definition readPixel :: "byte list \<Rightarrow> nat \<Rightarrow> nat \<Rightarrow> byte option" where
  "readPixel buf dataOffset bufOffset =
     (let i = dataOffset + (bufOffset * 3) in
      if i + 2 < length buf
      then Some (pixelByte (buf ! (i + 2)) (buf ! (i + 1)) (buf ! i))
      else None)"

text \<open>
  \<open>loadBitmap\<close> on the bytes of the file (the file is read whole into \<^verbatim>\<open>buf\<close>).
\<close>

definition loadBitmap :: "byte list \<Rightarrow> Surface option" where
  "loadBitmap buf =
     (case (littleToBigEndian buf 0x12, littleToBigEndian buf 0x16, littleToBigEndian buf 0x0A) of
        (Some w, Some h, Some off) \<Rightarrow>
          (let bw = sint w; bh = sint h; dataOffset = unat off in
           map_option (\<lambda>d. \<lparr>data = d, width = bw, height = bh\<rparr>)
             (those (concat (map (\<lambda>y. map (\<lambda>x. readPixel buf dataOffset ((y * nat bw) + x))
                                         [0 ..< nat bw])
                            [0 ..< nat bh]))))
      | _ \<Rightarrow> None)"

section \<open>Notions of the specification\<close>

subsection \<open>UTF-8\<close>

text \<open>
  The three-byte form of UTF-8, \<^verbatim>\<open>1110xxxx 10xxxxxx 10xxxxxx\<close>, for a code point from
  \<open>0x800\<close> to \<open>0xFFFF\<close>: the encoder, and the decoder that checks the three prefixes.
\<close>

definition utf8_3 :: "nat \<Rightarrow> byte list" where
  "utf8_3 cp = [of_nat (0xE0 + cp div 0x1000), of_nat (0x80 + cp div 0x40 mod 0x40),
                of_nat (0x80 + cp mod 0x40)]"

definition utf8Decode3 :: "byte list \<Rightarrow> nat option" where
  "utf8Decode3 bs =
     (case bs of
        [b1, b2, b3] \<Rightarrow>
          if unat b1 div 0x10 = 0xE \<and> unat b2 div 0x40 = 2 \<and> unat b3 div 0x40 = 2
          then Some (unat b1 mod 0x10 * 0x1000 + unat b2 mod 0x40 * 0x40 + unat b3 mod 0x40)
          else None
      | _ \<Rightarrow> None)"

subsection \<open>Surfaces, pixels and dots\<close>

text \<open>
  The invariant of a surface: the buffer holds one byte for each of the \<open>width \<times> height\<close>
  cells.
\<close>

definition wfSurface :: "Surface \<Rightarrow> bool" where
  "wfSurface s = (0 \<le> width s \<and> 0 \<le> height s \<and> length (data s) = nat (width s * height s))"

text \<open>The addressable pixels: \<open>0 \<le> x < width \<times> 2\<close> and \<open>0 \<le> y < height \<times> 4\<close>.\<close>

definition inRange :: "Surface \<Rightarrow> int \<Rightarrow> int \<Rightarrow> bool" where
  "inRange s x y = (0 \<le> x \<and> x < width s * 2 \<and> 0 \<le> y \<and> y < height s * 4)"

text \<open>
  The dot-position table as the specification reads it: four rows of two columns, row 0 the
  bottom one; the bit of pixel \<open>(x, y)\<close> is the entry at \<open>(y mod 4, x mod 2)\<close>.
\<close>

definition dotPositionTable :: "int list list" where
  "dotPositionTable = [[64, 128], [4, 32], [2, 16], [1, 8]]"

definition dotMask :: "int \<Rightarrow> int \<Rightarrow> byte" where
  "dotMask x y = word_of_int (dotPositionTable ! nat (y mod 4) ! nat (x mod 2))"

text \<open>The cell of pixel \<open>(x, y)\<close>: row \<open>height - 1 - y div 4\<close>, column \<open>x div 2\<close>.\<close>

definition cellOffset :: "Surface \<Rightarrow> int \<Rightarrow> int \<Rightarrow> nat" where
  "cellOffset s x y = nat ((height s - 1 - y div 4) * width s + x div 2)"


subsection \<open>The buffer of the renderer\<close>


subsection \<open>Curves and lines as specified\<close>




section \<open>Inputs and auxiliary notions\<close>

text \<open>
  A file for \<open>loadBitmap\<close>: a 24-bit bitmap of one pixel, with the 14 bytes of the file
  header (the offset of the data, 54, at \<open>0x0A\<close>), the 40 bytes of the image header (width 1
  at \<open>0x12\<close>, height 1 at \<open>0x16\<close>) and the row of the pixel, blue first, padded to four
  bytes.
\<close>

definition bmp1x1 :: "byte \<Rightarrow> byte \<Rightarrow> byte \<Rightarrow> byte list" where
  "bmp1x1 b g r =
     [0x42, 0x4D, 0x3A, 0, 0, 0, 0, 0, 0, 0, 0x36, 0, 0, 0,
      0x28, 0, 0, 0, 1, 0, 0, 0, 1, 0, 0, 0, 1, 0, 0x18, 0,
      0, 0, 0, 0, 4, 0, 0, 0, 0, 0, 0, 0, 0, 0, 0, 0, 0, 0, 0, 0, 0, 0, 0, 0,
      b, g, r, 0]"



text \<open>
  Plotting a point with the value 1, as every call of \<open>drawLine\<close> does, and the update of
  one byte that it makes.
\<close>

definition plot :: "real \<times> real \<Rightarrow> Surface \<Rightarrow> Surface" where
  "plot p s = snd (drawPoint s (fst p) (snd p) 1)"

definition orAt :: "nat \<Rightarrow> byte \<Rightarrow> byte list \<Rightarrow> byte list" where
  "orAt i a xs = xs[i := xs ! i OR a]"


section \<open>Properties\<close>

subsection \<open>Rounding\<close>

lemma fRound_nonneg: "- (1 / 2) \<le> n \<Longrightarrow> fRound n = \<lfloor>n + 1 / 2\<rfloor>"
  by (simp add: fRound_def toInt_def)

subsection \<open>The table of glyphs\<close>

lemma glyph_pack: 
  fixes enc1_bits enc2_bits enc3_bits :: byte
  shows "glyphBytes (push_bit 16 (ucast enc3_bits) OR push_bit 8 (ucast enc2_bits) OR ucast enc1_bits) = [enc1_bits, enc2_bits, enc3_bits]"
  unfolding glyphBytes_def
  apply simp
  apply (intro conjI)
    apply (rule bit_word_eqI; auto simp add: bit_simps dest: bit_imp_le_length)+
  done

lemma mask_F000: "(0xF000 :: uint32) = push_bit 12 (mask 4)" by (simp add: mask_eq_exp_minus_1)
lemma mask_0FC0: "(0x0FC0 :: uint32) = push_bit 6 (mask 6)" by (simp add: mask_eq_exp_minus_1)
lemma mask_3F: "(0x3F :: uint32) = mask 6" by (simp add: mask_eq_exp_minus_1)

lemma enc1_bits: "drop_bit 12 (w AND (0xF000 :: uint32)) = take_bit 4 (drop_bit 12 w)"
  unfolding mask_F000 by (rule bit_word_eqI) (auto simp add: bit_simps)
lemma enc2_bits: "drop_bit 6 (w AND (0x0FC0 :: uint32)) = take_bit 6 (drop_bit 6 w)"
  unfolding mask_0FC0 by (rule bit_word_eqI) (auto simp add: bit_simps)
lemma enc3_bits: "(w AND (0x3F :: uint32)) = take_bit 6 w"
  unfolding mask_3F by (rule bit_word_eqI) (auto simp add: bit_simps)

lemma pow_and_take: "m \<le> n \<Longrightarrow> (2 ^ n :: uint32) AND take_bit m x = 0"
  by (rule bit_word_eqI) (auto simp add: bit_simps)

lemma or_hi6: "(0x80 :: uint32) OR take_bit 6 x = 0x80 + take_bit 6 x"
  using pow_and_take [of 6 7 x] by (simp add: disjunctive_add_eq_or)

lemma or_hi4: "(0xE0 :: uint32) OR take_bit 4 x = 0xE0 + take_bit 4 x"
proof -
  have "(push_bit 5 (mask 3) :: uint32) AND take_bit 4 x = 0"
    by (rule bit_word_eqI) (auto simp add: bit_simps)
  then have "(0xE0 :: uint32) AND take_bit 4 x = 0" by (simp add: mask_eq_exp_minus_1)
  then show ?thesis by (simp add: disjunctive_add_eq_or)
qed

lemma ucast_of_unat: "(ucast (z :: uint32) :: byte) = of_nat (unat z)"
  by simp

lemma unat_enc3: "unat ((0x80 :: uint32) + take_bit 6 w) = 0x80 + unat w mod 0x40"
proof -
  have "unat (take_bit 6 w) = unat w mod 64"
    by (simp add: unsigned_take_bit_eq take_bit_eq_mod unat_mod unat_div)
  then show ?thesis by (simp add: unat_word_ariths)
qed

lemma unat_enc2: "unat ((0x80 :: uint32) + take_bit 6 (drop_bit 6 w)) = 0x80 + unat w div 0x40 mod 0x40"
proof -
  have "unat (take_bit 6 (drop_bit 6 w)) = unat w div 64 mod 64"
    by (simp add: unsigned_take_bit_eq take_bit_eq_mod unat_drop_bit_eq drop_bit_eq_div unat_mod unat_div)
  then show ?thesis by (simp add: unat_word_ariths)
qed

lemma unat_enc1: "unat ((0xE0 :: uint32) + take_bit 4 (drop_bit 12 w)) = 0xE0 + unat w div 0x1000 mod 0x10"
proof -
  have "unat (take_bit 4 (drop_bit 12 w)) = unat w div 4096 mod 16"
    by (simp add: unsigned_take_bit_eq take_bit_eq_mod unat_drop_bit_eq drop_bit_eq_div unat_mod unat_div)
  then show ?thesis by (simp add: unat_word_ariths)
qed

lemma glyph_utf8Encode:
  "glyphBytes (utf8Encode w) =
     [of_nat (0xE0 + unat w div 0x1000 mod 0x10), of_nat (0x80 + unat w div 0x40 mod 0x40),
      of_nat (0x80 + unat w mod 0x40)]"
  unfolding utf8Encode_def Let_def glyph_pack enc1_bits enc2_bits enc3_bits or_hi6 or_hi4 ucast_of_unat
    unat_enc1 unat_enc3
  by (simp add: unat_drop_bit_eq drop_bit_eq_div unat_div)

lemma unat_cp: "v < 256 \<Longrightarrow> unat (0x2800 + of_nat v :: uint32) = 0x2800 + v"
  by (simp add: unat_word_ariths unat_of_nat)

lemma glyph_entry: "v < 256 \<Longrightarrow> glyphBytes (genBrailleTab ! v) = utf8_3 (0x2800 + v)"
  unfolding genBrailleTab_def utf8_3_def
  by (simp add: glyph_utf8Encode unat_cp del: of_nat_add of_nat_numeral)

lemma byte_of_nat_inj:
  assumes "a < 256" and "b < 256" and "(of_nat a :: byte) = of_nat b"
  shows "a = b"
proof -
  from assms(3) have "unat (of_nat a :: byte) = unat (of_nat b :: byte)" by (rule arg_cong)
  then have "a mod 256 = b mod 256" by (simp add: unat_of_nat)
  with assms(1,2) show ?thesis by simp
qed

lemma cp_mod: "(10240 + v) mod 64 = (v::nat) mod 64"
proof -
  have "10240 + v = v + 64 * 160" by simp
  then show ?thesis by (simp only: mod_mult_self2)
qed

lemma cp_div0: "(10240 + v) div 64 = 160 + (v::nat) div 64"
proof -
  have "10240 + v = v + 160 * 64" by simp
  then show ?thesis by (simp only: div_mult_self1)
qed

lemma cp_divq: "q < 4 \<Longrightarrow> (160 + q) mod 64 = 32 + (q::nat)"
proof -
  assume q: "q < 4"
  have "160 + q = (32 + q) + 64 * 2" by simp
  then have "(160 + q) mod 64 = (32 + q) mod 64" by (simp only: mod_mult_self2)
  with q show ?thesis by simp
qed

lemma cp_div: "v < 256 \<Longrightarrow> (10240 + v) div 64 mod 64 = 32 + (v::nat) div 64"
proof -
  assume "v < 256"
  then have "v div 64 < 4" by simp
  then show ?thesis by (simp only: cp_div0 cp_divq)
qed

lemma div_mod_eq:
  assumes a: "(v::nat) div 64 = v' div 64" and b: "v mod 64 = v' mod 64"
  shows "v = v'"
proof -
  have "v = 64 * (v div 64) + v mod 64" by (rule mult_div_mod_eq [symmetric])
  also have "\<dots> = 64 * (v' div 64) + v' mod 64" by (simp only: a b)
  also have "\<dots> = v'" by (rule mult_div_mod_eq)
  finally show ?thesis .
qed

lemma hi_bound: "0x80 + (n::nat) mod 0x40 < 256"
proof -
  have "n mod 64 < 64" by (rule mod_less_divisor) simp
  then show ?thesis by simp
qed

lemma utf8_3_inj:
  assumes v: "v < 256" and v': "v' < 256" and eq: "utf8_3 (0x2800 + v) = utf8_3 (0x2800 + v')"
  shows "v = v'"
proof -
  from eq have b2: "(of_nat (0x80 + (0x2800 + v) div 0x40 mod 0x40) :: byte) = of_nat (0x80 + (0x2800 + v') div 0x40 mod 0x40)"
      and b3: "(of_nat (0x80 + (0x2800 + v) mod 0x40) :: byte) = of_nat (0x80 + (0x2800 + v') mod 0x40)"
    by (simp_all add: utf8_3_def del: of_nat_add of_nat_numeral)
  have "0x80 + (0x2800 + v) div 0x40 mod 0x40 = 0x80 + (0x2800 + v') div 0x40 mod 0x40"
    by (rule byte_of_nat_inj [OF _ _ b2]) (rule hi_bound)+
  moreover have "0x80 + (0x2800 + v) mod 0x40 = 0x80 + (0x2800 + v') mod 0x40"
    by (rule byte_of_nat_inj [OF _ _ b3]) (rule hi_bound)+
  ultimately have "v div 64 = v' div 64" and "v mod 64 = v' mod 64"
    using v v' by (simp_all add: cp_div cp_mod)
  then show "v = v'" by (rule div_mod_eq)
qed

lemma length_genBrailleTab: "length genBrailleTab = 256"
  by (simp add: genBrailleTab_def)

lemma map_glyphs: "map glyphBytes genBrailleTab = map (\<lambda>v. utf8_3 (0x2800 + v)) [0..<256]"
proof (rule nth_equalityI)
  show "length (map glyphBytes genBrailleTab) = length (map (\<lambda>v. utf8_3 (0x2800 + v)) [0..<256])"
    by (simp add: length_genBrailleTab)
next
  fix i assume "i < length (map glyphBytes genBrailleTab)"
  then have i: "i < 256" by (simp add: length_genBrailleTab)
  then show "map glyphBytes genBrailleTab ! i = map (\<lambda>v. utf8_3 (0x2800 + v)) [0..<256] ! i"
    by (simp add: length_genBrailleTab glyph_entry)
qed

lemma inj_utf8_3: "inj_on (\<lambda>v. utf8_3 (0x2800 + v)) (set [0..<256])"
proof (rule inj_onI)
  fix x y :: nat
  assume "x \<in> set [0..<256]" "y \<in> set [0..<256]" "utf8_3 (0x2800 + x) = utf8_3 (0x2800 + y)"
  then show "x = y" using utf8_3_inj [of x y] by (simp only: set_upt atLeastLessThan_iff)
qed

lemma distinct_glyphs: "distinct (map glyphBytes genBrailleTab)"
  unfolding map_glyphs distinct_map by (rule conjI [OF distinct_upt inj_utf8_3])

lemma unat_byte_of_nat: "n < 256 \<Longrightarrow> unat (of_nat n :: byte) = n"
  by (simp add: unat_of_nat)

lemma lead_div: "r < 64 \<Longrightarrow> (128 + r) div 64 = (2::nat)"
proof -
  assume r: "r < 64"
  have "128 + r = r + 2 * 64" by simp
  then have "(128 + r) div 64 = 2 + r div 64" by (simp only: div_mult_self1)
  with r show ?thesis by simp
qed

lemma lead_mod: "r < 64 \<Longrightarrow> (128 + r) mod 64 = (r::nat)"
proof -
  assume r: "r < 64"
  have "128 + r = r + 64 * 2" by simp
  then have "(128 + r) mod 64 = r mod 64" by (simp only: mod_mult_self2)
  with r show ?thesis by simp
qed

lemma decode_entry:
  assumes v: "v < 256"
  shows "utf8Decode3 (glyphBytes (genBrailleTab ! v)) = Some (0x2800 + v)"
proof -
  let ?q = "32 + v div 64" and ?r = "v mod 64"
  from v have q4: "v div 64 < 4" by simp
  then have q: "?q < 64" by simp
  have r: "?r < 64" by simp
  have "10240 + v = (2048 + v) + 2 * 4096" by simp
  then have "(10240 + v) div 4096 = 2 + (2048 + v) div 4096" by (simp only: div_mult_self1)
  with v have b1: "(10240 + v) div 4096 = 2" by simp
  have b2: "(10240 + v) div 64 mod 64 = 32 + v div 64" using v by (rule cp_div)
  have bytes: "glyphBytes (genBrailleTab ! v) =
      [of_nat 226, of_nat (128 + ?q), of_nat (128 + ?r)]"
    by (simp add: glyph_entry [OF v] utf8_3_def b1 b2 cp_mod)
  have u1: "unat (of_nat 226 :: byte) = 226" by (rule unat_byte_of_nat) simp
  have u2: "unat (of_nat (128 + ?q) :: byte) = 128 + ?q" using q by (intro unat_byte_of_nat) simp
  have u3: "unat (of_nat (128 + ?r) :: byte) = 128 + ?r" using r by (intro unat_byte_of_nat) simp
  have "64 * (v div 64) + v mod 64 = v" by (rule mult_div_mod_eq)
  then have sum: "8192 + (32 + v div 64) * 64 + v mod 64 = 10240 + v" by simp
  show ?thesis
    unfolding utf8Decode3_def bytes list.case u1 u2 u3 lead_div [OF q] lead_mod [OF q]
      lead_div [OF r] lead_mod [OF r]
    using sum by simp
qed

lemma distinct_genBrailleTab: "distinct genBrailleTab"
  using distinct_glyphs by (simp add: distinct_map)

text \<open>
  Claim C9. The table has 256 entries. For every byte value \<open>v\<close> the three bytes of entry
  \<open>v\<close> are the three-byte UTF-8 encoding of the code point \<open>0x2800 + v\<close>: they have
  the prefixes \<^verbatim>\<open>1110\<close>, \<^verbatim>\<open>10\<close>, \<^verbatim>\<open>10\<close> and decode to that code point. The 256 entries
  are pairwise distinct, as integers and as byte sequences.
\<close>

theorem dot_table_utf8:
  "length genBrailleTab = 256
   \<and> (\<forall>v<256. glyphBytes (genBrailleTab ! v) = utf8_3 (0x2800 + v)
                \<and> utf8Decode3 (glyphBytes (genBrailleTab ! v)) = Some (0x2800 + v))
   \<and> distinct (map glyphBytes genBrailleTab)
   \<and> distinct genBrailleTab"
  using length_genBrailleTab glyph_entry decode_entry distinct_glyphs distinct_genBrailleTab
  by blast

theorem dot_table_utf8_witness:
  "(0xFF :: nat) < 256
   \<and> glyphBytes (genBrailleTab ! 0xFF) = [0xE2, 0xA3, 0xBF]
   \<and> utf8Decode3 (glyphBytes (genBrailleTab ! 0xFF)) = Some 0x28FF"
proof -
  have h: "(0xFF :: nat) < 256" by simp
  from dot_table_utf8 h
  have "glyphBytes (genBrailleTab ! 0xFF) = utf8_3 (0x2800 + 0xFF)
        \<and> utf8Decode3 (glyphBytes (genBrailleTab ! 0xFF)) = Some (0x2800 + 0xFF)"
    by blast
  then show ?thesis by (simp add: utf8_3_def utf8Decode3_def)
qed

subsection \<open>drawPoint\<close>

lemma cDiv_nonneg: "0 \<le> a \<Longrightarrow> 0 < b \<Longrightarrow> cDiv a b = a div b"
  by (cases "a = 0") (simp_all add: cDiv_def)

lemma cMod_nonneg: "0 \<le> a \<Longrightarrow> 0 < b \<Longrightarrow> cMod a b = a mod b"
  by (simp add: cMod_def cDiv_nonneg minus_mult_div_eq_mod)

lemma mod4_cases: "(y::int) mod 4 = 0 \<or> y mod 4 = 1 \<or> y mod 4 = 2 \<or> y mod 4 = 3"
proof -
  have "0 \<le> y mod 4" "y mod 4 < 4" by simp_all
  then show ?thesis by linarith
qed

lemma mod2_cases: "(x::int) mod 2 = 0 \<or> x mod 2 = 1"
proof -
  have "0 \<le> x mod 2" "x mod 2 < 2" by simp_all
  then show ?thesis by linarith
qed

lemma positionVal_table:
  "word_of_int (braillePositionVals ! nat ((y mod 4 * 2) + x mod 2)) = dotMask x y"
  using mod4_cases [of y] mod2_cases [of x]
  by (auto simp add: dotMask_def dotPositionTable_def braillePositionVals_def)

lemma offset_eq:
  "(w * h) - w - (q * w) + c = (h - 1 - q) * w + (c::int)"
  by (simp add: algebra_simps)


lemma drawPoint_inRange:
  assumes "inRange s (fRound fx) (fRound fy)"
  shows "drawPoint s fx fy v =
     (0, s\<lparr>data := (data s)[cellOffset s (fRound fx) (fRound fy) :=
        (if v = 0 then data s ! cellOffset s (fRound fx) (fRound fy) AND NOT (dotMask (fRound fx) (fRound fy))
         else data s ! cellOffset s (fRound fx) (fRound fy) OR dotMask (fRound fx) (fRound fy))]\<rparr>)"
  using assms
  by (simp add: drawPoint_def inRange_def Let_def cDiv_nonneg cMod_nonneg positionVal_table
      offset_eq cellOffset_def not_le not_less)

lemma drawPoint_outRange:
  assumes "\<not> inRange s (fRound fx) (fRound fy)"
  shows "drawPoint s fx fy v = (- 1, s)"
  using assms by (auto simp add: drawPoint_def inRange_def Let_def)
















lemma drawPoint_fields:
  "width (snd (drawPoint s fx fy v)) = width s"
  "height (snd (drawPoint s fx fy v)) = height s"
  "length (data (snd (drawPoint s fx fy v))) = length (data s)"
  by (simp_all add: drawPoint_def Let_def)


lemma inRange_drawPoint [simp]:
  "inRange (snd (drawPoint s fx fy v)) x y = inRange s x y"
  by (simp add: inRange_def drawPoint_fields)

lemma wfSurface_drawPoint: "wfSurface s \<Longrightarrow> wfSurface (snd (drawPoint s fx fy v))"
  by (simp add: wfSurface_def drawPoint_fields)








text \<open>
  Claim C2 at \<open>x = - 1\<close>. The nearest integer to \<open>- 1\<close> is \<open>- 1\<close>, which lies outside every
  surface, but \<open>fRound (- 1)\<close> is \<open>0\<close>: \<^verbatim>\<open>(int)(n + 0.5)\<close> truncates toward zero. So
  \<open>drawPoint\<close> at \<open>(- 1, 0)\<close> returns 0 and sets the dot of pixel \<open>(0, 0)\<close>.
\<close>

theorem drawPoint_minus_one_plotted:
  "\<lfloor>(- 1 :: real) + 1 / 2\<rfloor> = - 1
   \<and> fRound (- 1) = 0
   \<and> drawPoint \<lparr>data = [0], width = 1, height = 1\<rparr> (- 1) 0 1
       = (0, \<lparr>data = [64], width = 1, height = 1\<rparr>)"
  by (simp add: drawPoint_def fRound_def toInt_def Let_def cDiv_def cMod_def braillePositionVals_def)

text \<open>
  What holds of the bounds check: the error is returned exactly when the pixel that \<open>fRound\<close>
  computes is out of range, and then the surface is returned as it was
  (\<open>drawPoint_outRange\<close>); \<open>fRound\<close> rounds half up from \<open>- 1 / 2\<close> on
  (\<open>fRound_nonneg\<close>).
\<close>

lemma drawPoint_error_iff:
  "fst (drawPoint s fx fy v) = - 1 \<longleftrightarrow> \<not> inRange s (fRound fx) (fRound fy)"
  by (cases "inRange s (fRound fx) (fRound fy)") (simp_all add: drawPoint_inRange drawPoint_outRange)

subsection \<open>render\<close>

lemma length_concat_glyphs:
  "(\<And>x. length (f x) = 3) \<Longrightarrow> length (concat (map f xs)) = 3 * length xs"
  by (induction xs) simp_all

lemma length_utf8_3: "length (utf8_3 cp) = 3"
  by (simp add: utf8_3_def)

lemma glyph_of_byte: "glyphBytes (genBrailleTab ! unat (c :: byte)) = utf8_3 (0x2800 + unat c)"
proof -
  have "unat c < 2 ^ LENGTH(8)" by (rule unsigned_less)
  then have "unat c < 256" by simp
  then show ?thesis by (rule glyph_entry)
qed

lemma map_cells:
  "map (\<lambda>i. glyphBytes (genBrailleTab ! unat (xs ! i))) [0 ..< length xs]
     = map (\<lambda>c. utf8_3 (0x2800 + unat c)) (xs :: byte list)"
  by (rule nth_equalityI) (simp_all add: glyph_of_byte)




text \<open>
  A buffer that was allocated for a smaller surface is never enlarged: the bytes do not fit.
\<close>

lemma render_overrun:
  assumes "wfSurface s" and "n < 6 + 3 + 3 * nat (width s * height s) + 3"
  shows "render genBrailleTab (Some n) s = None"
proof -
  from assms(1) have len: "nat (width s * height s) = length (data s)"
    by (simp add: wfSurface_def)
  from assms(2) show ?thesis
    unfolding render_def Let_def len map_cells
    by (simp add: hideCursor_def cursorHome_def length_concat_glyphs length_utf8_3 len)
qed

subsection \<open>loadBitmap\<close>

lemma shifted_byte_zero:
  "push_bit n (ucast (x :: byte) :: uint32) = 0 \<longleftrightarrow> x = 0" if "n \<le> 24"
proof
  assume z: "push_bit n (ucast x :: uint32) = 0"
  show "x = 0"
  proof (rule bit_word_eqI)
    fix k assume k: "k < LENGTH(8)"
    from z have "\<not> bit (push_bit n (ucast x :: uint32)) (n + k)" by simp
    with k that show "bit x k = bit (0 :: byte) k" by (simp add: bit_simps)
  qed
next
  assume "x = 0" then show "push_bit n (ucast x :: uint32) = 0" by simp
qed

text \<open>
  The byte that \<open>loadBitmap\<close> writes for a pixel is 1 for black and 0 for every other colour.
\<close>

lemma pixelByte_eq: "pixelByte r g b = (if r = 0 \<and> g = 0 \<and> b = 0 then 1 else 0)"
  by (simp add: pixelByte_def Let_def or_eq_0_iff shifted_byte_zero)

lemma bmp1x1_width: "littleToBigEndian (bmp1x1 b g r) 0x12 = Some 1"
  by (simp add: littleToBigEndian_def bmp1x1_def)
lemma bmp1x1_height: "littleToBigEndian (bmp1x1 b g r) 0x16 = Some 1"
  by (simp add: littleToBigEndian_def bmp1x1_def)
lemma bmp1x1_dataOffset: "littleToBigEndian (bmp1x1 b g r) 0x0A = Some 0x36"
  by (simp add: littleToBigEndian_def bmp1x1_def)
lemma bmp1x1_pixel: "readPixel (bmp1x1 b g r) 0x36 0 = Some (pixelByte r g b)"
  by (simp add: readPixel_def bmp1x1_def)

lemma loadBitmap_1x1:
  "loadBitmap (bmp1x1 b g r) = Some \<lparr>data = [pixelByte r g b], width = 1, height = 1\<rparr>"
  by (simp add: loadBitmap_def bmp1x1_width bmp1x1_height bmp1x1_dataOffset bmp1x1_pixel)

text \<open>
  Claim C1 at a red pixel. The bitmap of one pixel with \<open>R = 0xFF\<close>, \<open>G = B = 0\<close> is decoded
  to the byte 0, as the white one is, where the claim (and the comment of \<open>loadBitmap\<close>:
  white as 0 and everything else as 1) asks for 1; only the black pixel is decoded to 1.
\<close>

theorem loadBitmap_red_pixel:
  "loadBitmap (bmp1x1 0 0 0xFF) = Some \<lparr>data = [0], width = 1, height = 1\<rparr>
   \<and> loadBitmap (bmp1x1 0xFF 0xFF 0xFF) = Some \<lparr>data = [0], width = 1, height = 1\<rparr>
   \<and> loadBitmap (bmp1x1 0 0 0) = Some \<lparr>data = [1], width = 1, height = 1\<rparr>"
  by (simp add: loadBitmap_1x1 pixelByte_eq)

subsection \<open>drawLine\<close>

lemmas drawPoint_eval =
  drawPoint_def fRound_def toInt_def cDiv_def cMod_def braillePositionVals_def Let_def

text \<open>
  Claim C4 at the segment from \<open>(0, 8)\<close> to \<open>(2, 0)\<close>. Its slope is \<open>- 4\<close>, so it is steep
  (\<open>1 \<le> \<bar>slope\<bar>\<close>), but the test of the loop is \<^verbatim>\<open>slope < 1\<close> on the signed slope: the
  loop steps X by 1 and computes Y from the line equation, from \<open>(0, 8)\<close> to \<open>(1, 4)\<close>. The
  whole line is three dots, at \<open>(0, 8)\<close>, \<open>(1, 4)\<close> and \<open>(2, 0)\<close>, four rows apart.
\<close>

theorem drawLine_steep_negative:
  "(0 - 8) / (2 - 0) = (- 4 :: real)
   \<and> 1 \<le> \<bar>- 4 :: real\<bar>
   \<and> lineStep False (- 4) 8 0 8 2 0 = (1, 4)
   \<and> drawLine 2 \<lparr>data = [0, 0, 0, 0, 0, 0], width = 2, height = 3\<rparr> 0 8 2 0
       = Some \<lparr>data = [64, 0, 128, 0, 0, 64], width = 2, height = 3\<rparr>"
  by (simp add: drawLine_def lineStep_def fAbs_def drawPoint_eval eval_nat_numeral)

text \<open>
  On the segment from \<open>(0, 0)\<close> to \<open>(1 / 2, - 5 / 2)\<close>, of slope \<open>- 5\<close>, the same branch
  steps X from 0 to 1 and back for ever: at both points the distance in Y is \<open>5 / 2\<close>.
\<close>

lemma drawLine_loop_cycle:
  "drawLine_loop fuel s False (- 5) 0 0 0 (1 / 2) (- 5 / 2) = None
   \<and> drawLine_loop fuel s False (- 5) 0 1 (- 5) (1 / 2) (- 5 / 2) = None"
proof (induction fuel arbitrary: s)
  case 0
  show ?case by (simp add: fAbs_def)
next
  case (Suc fuel)
  from Suc show ?case by (simp add: fAbs_def lineStep_def)
qed

text \<open>
  Claim C5 at this segment: whatever the number of iterations allowed and whatever the
  surface, the loop of \<open>drawLine\<close> is still running.
\<close>

theorem drawLine_never_returns:
  "drawLine fuel s 0 0 (1 / 2) (- 5 / 2) = None"
  using drawLine_loop_cycle [of fuel "snd (drawPoint s 0 0 1)"]
  by (simp add: drawLine_def)

subsection \<open>drawCurve\<close>










text \<open>The rounding of \<open>drawPoint\<close> leaves an integer \<open>y \<ge> 0\<close> as it is.\<close>

lemma fRound_of_int: "fRound (real_of_int y) = (if 0 \<le> y then y else y + 1)"
proof (cases "0 \<le> y")
  case True
  then have "0 \<le> real_of_int y + 1 / 2" by simp
  moreover have "\<lfloor>real_of_int y + 1 / 2\<rfloor> = y" by linarith
  ultimately show ?thesis using True by (simp add: fRound_def toInt_def)
next
  case False
  then have "y \<le> - 1" by simp
  then have "real_of_int y \<le> - 1" by (metis of_int_le_iff of_int_minus of_int_1)
  then have n: "\<not> 0 \<le> real_of_int y + 1 / 2" by simp
  have "\<lfloor>- (real_of_int y + 1 / 2)\<rfloor> = - y - 1" by linarith
  with n False show ?thesis by (simp add: fRound_def toInt_def)
qed

subsection \<open>Lines drawn in both directions\<close>

lemma orAt_commute: "orAt i a (orAt j b xs) = orAt j b (orAt i a xs)"
proof (cases "i = j")
  case False
  then show ?thesis by (simp add: orAt_def list_update_swap)
next
  case True
  show ?thesis
  proof (cases "i < length xs")
    case True
    with \<open>i = j\<close> show ?thesis by (simp add: orAt_def ac_simps)
  next
    case False
    with \<open>i = j\<close> show ?thesis by (simp add: orAt_def list_update_beyond)
  qed
qed


lemma inRange_data [simp]: "inRange (s\<lparr>data := d\<rparr>) x y = inRange s x y"
  by (simp add: inRange_def)

lemma cellOffset_data [simp]: "cellOffset (s\<lparr>data := d\<rparr>) x y = cellOffset s x y"
  by (simp add: cellOffset_def)

lemma plot_eq:
  "plot p s =
     (if inRange s (fRound (fst p)) (fRound (snd p))
      then s\<lparr>data := orAt (cellOffset s (fRound (fst p)) (fRound (snd p)))
                         (dotMask (fRound (fst p)) (fRound (snd p))) (data s)\<rparr>
      else s)"
  by (simp add: plot_def drawPoint_inRange drawPoint_outRange orAt_def)

lemma plot_commute: "plot p (plot q s) = plot q (plot p s)"
  by (simp add: plot_eq orAt_commute)


lemma plot_comp_commute: "plot p \<circ> plot q = plot q \<circ> plot p"
  by (rule ext) (simp add: plot_commute)




























lemma plot_fields [simp]:
  "width (plot p s) = width s" "height (plot p s) = height s"
  "length (data (plot p s)) = length (data s)"
  by (simp_all add: plot_def drawPoint_fields)

lemma fold_plot_fields [simp]:
  "width (fold plot ps s) = width s" "height (fold plot ps s) = height s"
  "length (data (fold plot ps s)) = length (data s)"
  by (induction ps arbitrary: s) simp_all


lemma inRange_fold_plot [simp]: "inRange (fold plot ps s) x y = inRange s x y"
  by (simp add: inRange_def)









end
